theory Spec2Isabelle
  imports Complex_Main "HOL-Library.Sublist" "HOL-Library.AList"
begin

section \<open>Values: requests, outcomes and run results\<close>

text \<open>
  Python \<open>str\<close> values whose length or non-ASCII content matters (the spinner's frames and
  status marks) are lists of code points; plain ASCII text is a \<open>string\<close>.
  Monotonic timestamps and durations are floats in the source; they are carried as reals and
  no statement below depends on their arithmetic.
\<close>

type_synonym pystr = "nat list"

definition ascii :: "string \<Rightarrow> pystr" where
  "ascii s = map of_char s"

datatype py_error = KeyError | IndexError | AttributeError | Skip | CycleError | WorkerError

datatype StdinSource = OFF | USER | API

record ExecuteRequest =
  req_cmd :: "string list"
  req_cwd :: string
  req_env :: "string \<rightharpoonup> string"
  req_stdin :: StdinSource

text \<open>\<open>tox.execute.api.Outcome\<close>; \<open>exit_code\<close> is \<open>Optional[int]\<close>.\<close>

record Outcome =
  request :: ExecuteRequest
  show_on_standard :: bool
  exit_code :: "int option"
  out :: string
  err :: string
  start :: real
  end_t :: real
  resolved_cmd :: "string list"

definition OK :: int where
  "OK = 0"

text \<open>\<open>Outcome.__bool__\<close>: \<open>self.exit_code == self.OK\<close> (\<open>None == 0\<close> is false).\<close>

definition outcome_bool :: "Outcome \<Rightarrow> bool" where
  "outcome_bool oc = (exit_code oc = Some OK)"

definition elapsed :: "Outcome \<Rightarrow> real" where
  "elapsed oc = end_t oc - start oc"

text \<open>\<open>ToxEnvRunResult\<close> as constructed in \<open>_queue_and_wait\<close>.\<close>

record ToxEnvRunResult =
  name :: string
  skipped :: bool
  code :: int
  outcomes :: "Outcome list"
  duration :: real

section \<open>The final report\<close>

text \<open>Decimal rendering of integers, as an f-string does.\<close>

fun str_nat :: "nat \<Rightarrow> string" where
  "str_nat n = (if n < 10 then [char_of (48 + n)] else str_nat (n div 10) @ [char_of (48 + n mod 10)])"

declare str_nat.simps [simp del]

definition str_int :: "int \<Rightarrow> string" where
  "str_int i = (if i < 0 then CHR ''-'' # str_nat (nat (- i)) else str_nat (nat i))"

datatype colour = GREEN | YELLOW | RED

text \<open>
  One printed line of \<open>report\<close>: its colour, the environment name (empty for the closing
  line) and the status text. The formatted durations are floats and are left out of the line.
\<close>

type_synonym report_line = "colour \<times> string \<times> string"

definition run_line :: "ToxEnvRunResult \<Rightarrow> report_line" where
  "run_line run =
     (let ok = (code run = OK);
          msg = (if ok then (if skipped run then ''SKIP'' else ''OK'')
                 else ''FAIL code '' @ str_int (code run))
      in ((if ok then (if skipped run then YELLOW else GREEN) else RED), name run, msg))"

text \<open>The \<open>for run in runs\<close> loop of \<open>report\<close>: printed lines and \<open>all_ok\<close>.\<close>

fun report_loop :: "ToxEnvRunResult list \<Rightarrow> report_line list \<Rightarrow> bool \<Rightarrow> report_line list \<times> bool" where
  "report_loop [] printed all_ok = (printed, all_ok)"
| "report_loop (run # runs) printed all_ok =
     report_loop runs (printed @ [run_line run]) ((code run = OK) \<and> all_ok)"

text \<open>
  \<open>report\<close>: the printed lines and the returned exit code. \<open>runs[0]\<close> is only read when
  \<open>len(runs) == 1\<close>, so it cannot raise.
\<close>

definition report :: "ToxEnvRunResult list \<Rightarrow> report_line list \<times> int" where
  "report runs =
     (case report_loop runs [] True of (printed, all_ok) \<Rightarrow>
        if all_ok then (printed @ [(GREEN, [], ''congratulations :)'')], OK)
        else (printed @ [(RED, [], ''evaluation failed :('')],
              (if length runs = 1 then code (hd runs) else - 1)))"

text \<open>Two results used as concrete inputs: \<open>a\<close> failed with code 1, \<open>b\<close> passed.\<close>

definition run_a :: ToxEnvRunResult where
  "run_a = \<lparr>name = ''a'', skipped = False, code = 1, outcomes = [], duration = 1\<rparr>"

definition run_b :: ToxEnvRunResult where
  "run_b = \<lparr>name = ''b'', skipped = False, code = 0, outcomes = [], duration = 1\<rparr>"

section \<open>The dependency scheduler\<close>

text \<open>
  \<open>state.tox_env(env)\<close> either raises \<open>Skip\<close> (\<open>None\<close>) or gives the environment, of which
  the scheduler reads \<open>conf["depends"].envs\<close>.
\<close>

type_synonym State = "string \<rightharpoonup> string list"

text \<open>\<open>todo\<close> is a dict in insertion order: environment to the set of its in-universe dependencies.\<close>

type_synonym todo = "(string \<times> string set) list"

text \<open>The \<open>for env in to_run\<close> loop of \<open>run_order\<close>; \<open>except Skip: continue\<close>.\<close>

fun run_order_loop :: "State \<Rightarrow> string set \<Rightarrow> string list \<Rightarrow> todo \<Rightarrow> todo" where
  "run_order_loop st to_run_set [] todo = todo"
| "run_order_loop st to_run_set (env # rest) todo =
     (case st env of
        None \<Rightarrow> run_order_loop st to_run_set rest todo
      | Some depends \<Rightarrow>
          run_order_loop st to_run_set rest (AList.update env (to_run_set \<inter> set depends) todo))"

text \<open>
  \<open>run_order\<close>. \<open>stable_topological_sort\<close> (\<open>tox.util.graph\<close>) is not among the sources, so
  it is the parameter \<open>topsort\<close>; \<open>None\<close> is its error for a cyclic graph.
\<close>

definition run_order ::
  "(todo \<Rightarrow> string list option) \<Rightarrow> State \<Rightarrow> string list \<Rightarrow> py_error + (string list \<times> todo)" where
  "run_order topsort st to_run =
     (let todo = run_order_loop st (set to_run) to_run []
      in case topsort todo of None \<Rightarrow> Inl CycleError | Some order \<Rightarrow> Inr (order, todo))"

text \<open>
  The \<open>for env in order\<close> loop of \<open>ready_to_run_envs\<close>: \<open>todo[env]\<close> raises \<open>KeyError\<close> for an
  unknown name; an environment with an unfinished dependency goes to \<open>new_order\<close>, any other to
  \<open>ready_to_run\<close>. (The counter \<open>at\<close> is written and never read.)
\<close>

fun collect ::
  "todo \<Rightarrow> string set \<Rightarrow> string list \<Rightarrow> string list \<Rightarrow> string list
     \<Rightarrow> py_error + (string list \<times> string list)" where
  "collect todo completed [] ready_to_run new_order = Inr (ready_to_run, new_order)"
| "collect todo completed (env # order) ready_to_run new_order =
     (case map_of todo env of
        None \<Rightarrow> Inl KeyError
      | Some deps \<Rightarrow>
          if deps - completed \<noteq> {} then collect todo completed order ready_to_run (new_order @ [env])
          else collect todo completed order (ready_to_run @ [env]) new_order)"

text \<open>
  The generator object: not yet started, suspended at its \<open>yield\<close> with the remaining \<open>order\<close>,
  or exhausted.
\<close>

datatype gen = NotStarted | Suspended "string list" todo | Finished

text \<open>
  From the head of \<open>while order:\<close> to the next \<open>yield\<close>; an empty \<open>order\<close> ends the generator
  and \<open>next(generator, [])\<close> gives its default \<open>[]\<close>.
\<close>

definition gen_while :: "todo \<Rightarrow> string set \<Rightarrow> string list \<Rightarrow> py_error + (string list \<times> gen)" where
  "gen_while todo completed order =
     (if order = [] then Inr ([], Finished)
      else case collect todo completed order [] [] of
             Inl e \<Rightarrow> Inl e
           | Inr (ready_to_run, new_order) \<Rightarrow> Inr (ready_to_run, Suspended new_order todo))"

text \<open>\<open>next(envs_to_run_generator, [])\<close> with the live \<open>completed\<close> set of that moment.\<close>

definition gen_next ::
  "(todo \<Rightarrow> string list option) \<Rightarrow> State \<Rightarrow> string list \<Rightarrow> string set \<Rightarrow> gen
     \<Rightarrow> py_error + (string list \<times> gen)" where
  "gen_next topsort st to_run completed g =
     (case g of
        NotStarted \<Rightarrow>
          (case run_order topsort st to_run of
             Inl e \<Rightarrow> Inl e
           | Inr (order, todo) \<Rightarrow> gen_while todo completed order)
      | Suspended order todo \<Rightarrow> gen_while todo completed order
      | Finished \<Rightarrow> Inr ([], Finished))"

text \<open>
  The batch as the specification words it: advance through the order and stop at the first
  environment whose dependencies are not all completed.
\<close>

definition ready :: "todo \<Rightarrow> string set \<Rightarrow> string \<Rightarrow> bool" where
  "ready todo completed env = (case map_of todo env of None \<Rightarrow> False | Some deps \<Rightarrow> deps \<subseteq> completed)"


section \<open>The driver loop\<close>

text \<open>
  \<open>_queue_and_wait\<close> runs on its own thread while the main thread may set the \<open>interrupt\<close>
  event and cancel futures, and pool workers finish in any order. The loop is a state
  machine driven by events: each event is one move of the driver or of its surroundings.

  A future is either one the driver resolved itself with \<open>set_result\<close>, or one submitted to
  the pool. What a pool worker does is the event's \<open>worker\<close>: \<open>run_one\<close> returned a result,
  the future was cancelled before it started, or \<open>run_one\<close> raised.

  Calls on the spinner and on the log handler go to classes that are not among the sources
  (\<open>ToxSpinner\<close>'s base takes other arguments than \<open>tox.util.spinner.Spinner\<close> there); they
  are not part of the state. \<open>MISS_DURATION\<close> is the parameter \<open>miss\<close>.
\<close>

datatype future = Resolved ToxEnvRunResult | Pending

datatype worker = Returned ToxEnvRunResult | Cancelled | Crashed

datatype event = SetInterrupt | Queue | Complete nat worker

datatype stop = Raised py_error | NotEnabled

record driver =
  env_list :: "string list"
  future_to_env :: "(future \<times> string) list"
  completed :: "string set"
  results :: "ToxEnvRunResult list"
  generator :: gen
  interrupted :: bool
  submitted :: "string list"
  torn_down :: "string list"
  finished :: bool

definition init_driver :: driver where
  "init_driver =
     \<lparr>env_list = [], future_to_env = [], completed = {}, results = [], generator = NotStarted,
      interrupted = False, submitted = [], torn_down = [], finished = False\<rparr>"

text \<open>
  One pass of the body of \<open>for env in env_list\<close>, for the head of what is left of the batch:
  with the interrupt set, teardown and a future resolved to code \<open>-2\<close>; otherwise
  \<open>executor.submit\<close>, recorded in \<open>submitted\<close>.
\<close>

definition queue_one :: "State \<Rightarrow> real \<Rightarrow> driver \<Rightarrow> stop + driver" where
  "queue_one st miss s =
     (case env_list s of
        [] \<Rightarrow> Inl NotEnabled
      | env # rest \<Rightarrow>
          (case st env of
             None \<Rightarrow> Inl (Raised Skip)
           | Some _ \<Rightarrow>
               if interrupted s then
                 Inr (s\<lparr>env_list := rest,
                        torn_down := torn_down s @ [env],
                        future_to_env := future_to_env s @
                          [(Resolved \<lparr>name = env, skipped = False, code = - 2, outcomes = [],
                                      duration = miss\<rparr>, env)]\<rparr>)
               else
                 Inr (s\<lparr>env_list := rest,
                        submitted := submitted s @ [env],
                        future_to_env := future_to_env s @ [(Pending, env)]\<rparr>)))"

text \<open>
  \<open>if not future_to_env: result = None\<close>, else the first completed future (the \<open>i\<close>-th
  entry) is popped and its result read; \<open>CancelledError\<close> gives teardown and code \<open>-3\<close>.
  A future can only be cancelled by the interrupt handler, after it has set the event, and
  only while it waits in the pool.
\<close>

definition wait_one :: "real \<Rightarrow> nat \<Rightarrow> worker \<Rightarrow> driver \<Rightarrow> stop + (ToxEnvRunResult option \<times> driver)" where
  "wait_one miss i w s =
     (if future_to_env s = [] then Inr (None, s)
      else if length (future_to_env s) \<le> i then Inl NotEnabled
      else
        (case future_to_env s ! i of (fut, env_done) \<Rightarrow>
           let s1 = s\<lparr>future_to_env := take i (future_to_env s) @ drop (Suc i) (future_to_env s)\<rparr>;
               record_result = (\<lambda>result s2.
                  Inr (Some result, s2\<lparr>results := results s2 @ [result],
                                        completed := insert (name result) (completed s2)\<rparr>))
           in (case fut of
                 Resolved result \<Rightarrow> record_result result s1
               | Pending \<Rightarrow>
                   (case w of
                      Returned result \<Rightarrow> record_result result s1
                    | Crashed \<Rightarrow> Inl (Raised WorkerError)
                    | Cancelled \<Rightarrow>
                        if interrupted s then
                          record_result
                            \<lparr>name = env_done, skipped = False, code = - 3, outcomes = [],
                             duration = miss\<rparr>
                            (s1\<lparr>torn_down := torn_down s1 @ [env_done]\<rparr>)
                        else Inl NotEnabled))))"

text \<open>
  The rest of one iteration of \<open>while True\<close>, after the batch has been queued: wait, pull
  the next batch from the generator, and stop when nothing is queued and nothing is running.
\<close>

definition wait_and_pull ::
  "(todo \<Rightarrow> string list option) \<Rightarrow> State \<Rightarrow> string list \<Rightarrow> real \<Rightarrow> nat \<Rightarrow> worker \<Rightarrow> driver
     \<Rightarrow> stop + driver" where
  "wait_and_pull topsort st to_run miss i w s =
     (case wait_one miss i w s of
        Inl e \<Rightarrow> Inl e
      | Inr (result, s1) \<Rightarrow>
          (case gen_next topsort st to_run (completed s1) (generator s1) of
             Inl e \<Rightarrow> Inl (Raised e)
           | Inr (batch, g) \<Rightarrow>
               let final_run = (batch = [] \<and> future_to_env s1 = [])
               in Inr (s1\<lparr>env_list := batch, generator := g, finished := final_run\<rparr>)))"

definition driver_step ::
  "(todo \<Rightarrow> string list option) \<Rightarrow> State \<Rightarrow> string list \<Rightarrow> real \<Rightarrow> event \<Rightarrow> driver
     \<Rightarrow> stop + driver" where
  "driver_step topsort st to_run miss ev s =
     (case ev of
        SetInterrupt \<Rightarrow> Inr (s\<lparr>interrupted := True\<rparr>)
      | Queue \<Rightarrow> if finished s then Inl NotEnabled else queue_one st miss s
      | Complete i w \<Rightarrow>
          if finished s \<or> env_list s \<noteq> [] then Inl NotEnabled
          else wait_and_pull topsort st to_run miss i w s)"

fun run_events ::
  "(todo \<Rightarrow> string list option) \<Rightarrow> State \<Rightarrow> string list \<Rightarrow> real \<Rightarrow> event list \<Rightarrow> driver
     \<Rightarrow> stop + driver" where
  "run_events topsort st to_run miss [] s = Inr s"
| "run_events topsort st to_run miss (ev # evs) s =
     (case driver_step topsort st to_run miss ev s of
        Inl e \<Rightarrow> Inl e
      | Inr s' \<Rightarrow> run_events topsort st to_run miss evs s')"

text \<open>
  The in-universe dependencies of an environment: the names of its \<open>depends\<close> that are in
  \<open>to_run\<close>.
\<close>

definition universe_deps :: "State \<Rightarrow> string list \<Rightarrow> string \<Rightarrow> string set" where
  "universe_deps st to_run env = (case st env of None \<Rightarrow> {} | Some depends \<Rightarrow> set to_run \<inter> set depends)"

text \<open>
  The third scenario of the specification: \<open>y\<close> depends on \<open>x\<close> and \<open>z\<close> on \<open>y\<close>; the order
  \<open>x, y, z\<close> is the topological order of this graph.
\<close>

definition xyz_state :: State where
  "xyz_state = [''x'' \<mapsto> [], ''y'' \<mapsto> [''x''], ''z'' \<mapsto> [''y'']]"

definition xyz_sort :: "todo \<Rightarrow> string list option" where
  "xyz_sort todo = Some [''x'', ''y'', ''z'']"

definition passed :: "string \<Rightarrow> ToxEnvRunResult" where
  "passed n = \<lparr>name = n, skipped = False, code = 0, outcomes = [], duration = 1\<rparr>"

text \<open>
  States of the third scenario: \<open>x\<close> has passed and \<open>y\<close> is the batch; \<open>x\<close> is running when
  the interrupt is set; \<open>x\<close> was cancelled and \<open>y\<close> is the batch.
\<close>

definition s_y :: driver where
  "s_y = \<lparr>env_list = [''y''], future_to_env = [], completed = {''x''}, results = [passed ''x''],
     generator = Suspended [''z''] [(''x'', {}), (''y'', {''x''}), (''z'', {''y''})],
     interrupted = False, submitted = [''x''], torn_down = [], finished = False\<rparr>"

definition s_running :: driver where
  "s_running = \<lparr>env_list = [], future_to_env = [(Pending, ''x'')], completed = {}, results = [],
     generator = Suspended [''y'', ''z''] [(''x'', {}), (''y'', {''x''}), (''z'', {''y''})],
     interrupted = True, submitted = [''x''], torn_down = [], finished = False\<rparr>"

definition s_cancelled :: driver where
  "s_cancelled = \<lparr>env_list = [''y''], future_to_env = [], completed = {''x''},
     results = [\<lparr>name = ''x'', skipped = False, code = - 3, outcomes = [], duration = 0\<rparr>],
     generator = Suspended [''z''] [(''x'', {}), (''y'', {''x''}), (''z'', {''y''})],
     interrupted = True, submitted = [''x''], torn_down = [''x''], finished = False\<rparr>"

text \<open>
  What holds of every state the driver reaches: a finished loop has nothing queued or running;
  before the first pull nothing is queued; and while the generator is suspended, every name
  left in its order is a key of \<open>todo\<close>, \<open>todo\<close> holds the in-universe dependencies, and every
  environment of the current batch is ready.
\<close>

definition driver_inv :: "State \<Rightarrow> string list \<Rightarrow> driver \<Rightarrow> bool" where
  "driver_inv st to_run s =
     ((finished s \<longrightarrow> env_list s = [] \<and> future_to_env s = []) \<and>
      (case generator s of
         NotStarted \<Rightarrow> env_list s = [] \<and> future_to_env s = []
       | Suspended order todo \<Rightarrow>
           set order \<subseteq> dom (map_of todo) \<and>
           (\<forall>e d. map_of todo e = Some d \<longrightarrow> (\<exists>deps. st e = Some deps \<and> d = set to_run \<inter> set deps)) \<and>
           (\<forall>e \<in> set (env_list s). ready todo (completed s) e)
       | Finished \<Rightarrow> env_list s = []))"




section \<open>The local subprocess instance\<close>

text \<open>
  The child process is the operating system's; what the cascade can observe of it is a
  parameter. A \<open>reaction\<close> says what a live child does once a signal has arrived: what it
  still writes to its streams, and whether it then exits by itself, after how many
  milliseconds and with which code (\<open>None\<close>: it stays alive). A kill cannot be ignored.
  Timeouts are in milliseconds (\<open>WAIT_INTERRUPT = 0.3\<close>, \<open>WAIT_TERMINATE = 0.2\<close> seconds).
\<close>

datatype signal = SIGINT | SIGTERM | SIGKILL

datatype action = Send signal | Communicate "nat option"

record reaction =
  exits :: "(nat \<times> int) option"
  writes_out :: string
  writes_err :: string

record Popen =
  returncode :: "int option"
  unread_out :: string
  unread_err :: string
  streams_closed :: bool
  exiting :: "(nat \<times> int) option"
  on_int :: reaction
  on_term :: reaction
  kill_code :: int
  trace :: "action list"

definition WAIT_INTERRUPT :: nat where
  "WAIT_INTERRUPT = 300"

definition WAIT_TERMINATE :: nat where
  "WAIT_TERMINATE = 200"

text \<open>\<open>send_signal(SIGINT)\<close>, \<open>terminate()\<close> and \<open>kill()\<close> on a live child.\<close>

definition deliver :: "signal \<Rightarrow> reaction \<Rightarrow> Popen \<Rightarrow> Popen" where
  "deliver sig r proc =
     proc\<lparr>trace := trace proc @ [Send sig],
          unread_out := unread_out proc @ writes_out r,
          unread_err := unread_err proc @ writes_err r,
          exiting := exits r\<rparr>"

definition send_signal_int :: "Popen \<Rightarrow> Popen" where
  "send_signal_int proc = deliver SIGINT (on_int proc) proc"

definition terminate :: "Popen \<Rightarrow> Popen" where
  "terminate proc = deliver SIGTERM (on_term proc) proc"

definition kill :: "Popen \<Rightarrow> Popen" where
  "kill proc = deliver SIGKILL \<lparr>exits = Some (0, kill_code proc), writes_out = [], writes_err = []\<rparr> proc"

text \<open>
  The child has exited: \<open>communicate\<close> returns everything still unread and closes the streams.
\<close>

definition reaped :: "int \<Rightarrow> Popen \<Rightarrow> Popen \<times> (string \<times> string)" where
  "reaped c proc =
     (proc\<lparr>returncode := Some c, unread_out := [], unread_err := [], streams_closed := True,
           exiting := None\<rparr>,
      (unread_out proc, unread_err proc))"

text \<open>
  \<open>proc.communicate(timeout=t)\<close> on a live child: \<open>None\<close> is \<open>TimeoutExpired\<close>; what was
  read so far stays buffered for the next call.
\<close>

definition communicate_timeout :: "nat \<Rightarrow> Popen \<Rightarrow> Popen \<times> (string \<times> string) option" where
  "communicate_timeout t proc =
     (let p = proc\<lparr>trace := trace proc @ [Communicate (Some t)]\<rparr>
      in case exiting p of
           Some (d, c) \<Rightarrow>
             if d < t then (case reaped c p of (p', oe) \<Rightarrow> (p', Some oe))
             else (p\<lparr>exiting := Some (d - t, c)\<rparr>, None)
         | None \<Rightarrow> (p, None))"

text \<open>\<open>proc.communicate()\<close> after \<open>kill()\<close>: waits, without bound, until the child is reaped.\<close>

definition communicate_killed :: "Popen \<Rightarrow> Popen \<times> (string \<times> string)" where
  "communicate_killed proc =
     reaped (case exiting proc of Some (d, c) \<Rightarrow> c | None \<Rightarrow> kill_code proc)
       (proc\<lparr>trace := trace proc @ [Communicate None]\<rparr>)"

text \<open>
  \<open>proc.communicate()\<close> on a child that is already dead: just drain; \<open>None\<close> is the
  \<open>ValueError\<close> of streams already closed by an earlier \<open>communicate\<close>.
\<close>

definition communicate_dead :: "Popen \<Rightarrow> Popen \<times> (string \<times> string) option" where
  "communicate_dead proc =
     (let p = proc\<lparr>trace := trace proc @ [Communicate None]\<rparr>
      in if streams_closed p then (p, None)
         else (p\<lparr>unread_out := [], unread_err := [], streams_closed := True\<rparr>,
               Some (unread_out p, unread_err p)))"

text \<open>
  \<open>LocalSubProcessExecuteInstance\<close>: the request, the process once spawned, the cached
  \<open>_cmd\<close>, and the content of the two \<open>SyncWrite\<close> buffers its handlers append to.
\<close>

record Instance =
  inst_request :: ExecuteRequest
  process :: "Popen option"
  cmd_cache :: "string list option"
  out_content :: string
  err_content :: string

definition build_instance :: "ExecuteRequest \<Rightarrow> Instance" where
  "build_instance req =
     \<lparr>inst_request = req, process = None, cmd_cache = None, out_content = [], err_content = []\<rparr>"

text \<open>
  The cascade INT, TERM, KILL of \<open>interrupt\<close>, for a live child; both timed waits use
  \<open>WAIT_INTERRUPT\<close>, as the source does.
\<close>

definition cascade :: "Popen \<Rightarrow> Popen \<times> (string \<times> string)" where
  "cascade proc =
     (case communicate_timeout WAIT_INTERRUPT (send_signal_int proc) of
        (p1, Some oe) \<Rightarrow> (p1, oe)
      | (p1, None) \<Rightarrow>
          (case communicate_timeout WAIT_INTERRUPT (terminate p1) of
             (p2, Some oe) \<Rightarrow> (p2, oe)
           | (p2, None) \<Rightarrow> communicate_killed (kill p2)))"

text \<open>
  \<open>interrupt\<close>: the new instance and the returned exit code. \<open>returncode\<close> is set on every
  path that reaches \<open>int(self.process.returncode)\<close>.
\<close>

definition interrupt :: "Instance \<Rightarrow> Instance \<times> int" where
  "interrupt inst =
     (case process inst of
        None \<Rightarrow> (inst, OK)
      | Some proc \<Rightarrow>
          (case (if returncode proc = None then cascade proc
                 else (case communicate_dead proc of
                         (p, Some oe) \<Rightarrow> (p, oe)
                       | (p, None) \<Rightarrow> (p, ([], [])))) of
             (p, (out_bytes, err_bytes)) \<Rightarrow>
               (inst\<lparr>process := Some p,
                      out_content := out_content inst @ out_bytes,
                      err_content := err_content inst @ err_bytes\<rparr>,
                (case returncode p of Some c \<Rightarrow> c | None \<Rightarrow> OK))))"

text \<open>
  The cascade as the specification words it: 300 ms after the soft interrupt, 200 ms
  (\<open>WAIT_TERMINATE\<close>) after terminate, then kill and an unbounded wait.
\<close>

definition spec_cascade :: "Popen \<Rightarrow> Popen \<times> (string \<times> string)" where
  "spec_cascade proc =
     (case communicate_timeout WAIT_INTERRUPT (send_signal_int proc) of
        (p1, Some oe) \<Rightarrow> (p1, oe)
      | (p1, None) \<Rightarrow>
          (case communicate_timeout WAIT_TERMINATE (terminate p1) of
             (p2, Some oe) \<Rightarrow> (p2, oe)
           | (p2, None) \<Rightarrow> communicate_killed (kill p2)))"

text \<open>
  A child that ignores the soft interrupt and, on terminate, cleans up for 250 ms and exits
  with code 0.
\<close>

definition slow_child :: Popen where
  "slow_child =
     \<lparr>returncode = None, unread_out = [], unread_err = [], streams_closed = False, exiting = None,
      on_int = \<lparr>exits = None, writes_out = [], writes_err = ''no''\<rparr>,
      on_term = \<lparr>exits = Some (250, 0), writes_out = ''bye'', writes_err = []\<rparr>,
      kill_code = - 9, trace = []\<rparr>"

text \<open>A child that ignores both signals (the test suite's \<open>bad_process.py\<close>).\<close>

definition bad_child :: Popen where
  "bad_child =
     \<lparr>returncode = None, unread_out = [], unread_err = [], streams_closed = False, exiting = None,
      on_int = \<lparr>exits = None, writes_out = [], writes_err = ''how about no KeyboardInterrupt''\<rparr>,
      on_term = \<lparr>exits = None, writes_out = ''how about no signal 15'', writes_err = []\<rparr>,
      kill_code = - 9, trace = []\<rparr>"

text \<open>
  The \<open>cmd\<close> property. \<open>shutil.which\<close> looks at the file system and is the parameter
  \<open>which\<close>. \<open>self.request.cmd[0]\<close> is evaluated before \<open>self.request.env["PATH"]\<close>; either
  lookup can raise, and then nothing has been cached.
\<close>

definition cmd ::
  "(string \<Rightarrow> string \<Rightarrow> string option) \<Rightarrow> Instance \<Rightarrow> py_error + (string list \<times> Instance)" where
  "cmd which inst =
     (case cmd_cache inst of
        Some c \<Rightarrow> Inr (c, inst)
      | None \<Rightarrow>
          (case req_cmd (inst_request inst) of
             [] \<Rightarrow> Inl IndexError
           | c0 # rest \<Rightarrow>
               (case req_env (inst_request inst) ''PATH'' of
                  None \<Rightarrow> Inl KeyError
                | Some path \<Rightarrow>
                    let c = (case which c0 path of
                               None \<Rightarrow> req_cmd (inst_request inst)
                             | Some executable \<Rightarrow> executable # rest)
                    in Inr (c, inst\<lparr>cmd_cache := Some c\<rparr>))))"

text \<open>Successive reads of \<open>cmd\<close>, each against the file system of its moment.\<close>

fun cmd_reads :: "(string \<Rightarrow> string \<Rightarrow> string option) list \<Rightarrow> Instance \<Rightarrow> (py_error + string list) list" where
  "cmd_reads [] inst = []"
| "cmd_reads (which # later) inst =
     (case cmd which inst of
        Inl e \<Rightarrow> Inl e # cmd_reads later inst
      | Inr (c, inst') \<Rightarrow> Inr c # cmd_reads later inst')"

text \<open>
  \<open>__enter__\<close>. \<open>Popen(...)\<close> is the parameter \<open>spawn\<close>: it gives the process, or raises
  \<open>OSError\<close> with its \<open>errno\<close> (\<open>Inl\<close>). The status is the failed one, carrying the errno,
  or the live one, which reads the exit code off the process.
\<close>

datatype ExecuteStatus = LocalSubprocessExecuteStatus | LocalSubprocessExecuteFailedStatus "int option"

definition enter ::
  "(string \<Rightarrow> string \<Rightarrow> string option) \<Rightarrow> (string list \<Rightarrow> ExecuteRequest \<Rightarrow> int option + Popen)
     \<Rightarrow> Instance \<Rightarrow> py_error + (ExecuteStatus \<times> Instance)" where
  "enter which spawn inst =
     (case cmd which inst of
        Inl e \<Rightarrow> Inl e
      | Inr (c, inst1) \<Rightarrow>
          (case spawn c (inst_request inst1) of
             Inl errno \<Rightarrow> Inr (LocalSubprocessExecuteFailedStatus errno, inst1)
           | Inr proc \<Rightarrow> Inr (LocalSubprocessExecuteStatus, inst1\<lparr>process := Some proc\<rparr>)))"

definition status_exit_code :: "ExecuteStatus \<Rightarrow> Instance \<Rightarrow> int option" where
  "status_exit_code status inst =
     (case status of
        LocalSubprocessExecuteFailedStatus errno \<Rightarrow> errno
      | LocalSubprocessExecuteStatus \<Rightarrow> (case process inst of None \<Rightarrow> None | Some proc \<Rightarrow> returncode proc))"

text \<open>
  \<open>Execute.call\<close>. The caller's block inside the scoped region is a parameter: \<open>body\<close> is
  what it does to a live instance (waiting, feeding stdin, the drains filling the buffers);
  on the failed status \<open>wait\<close>, \<open>write_stdin\<close> and \<open>close_stdin\<close> do nothing, so the instance
  is unchanged. \<open>body_end\<close> says whether the block ended normally or by \<open>KeyboardInterrupt\<close>.
  The result is the outcome stored on the status, and whether \<open>ToxKeyboardInterrupt\<close> is raised.
\<close>

datatype body_end = Normal | KeyboardInterrupt

definition call ::
  "(string \<Rightarrow> string \<Rightarrow> string option) \<Rightarrow> (string list \<Rightarrow> ExecuteRequest \<Rightarrow> int option + Popen)
     \<Rightarrow> (Instance \<Rightarrow> Instance) \<Rightarrow> body_end \<Rightarrow> real \<Rightarrow> real \<Rightarrow> ExecuteRequest \<Rightarrow> bool
     \<Rightarrow> py_error + (Outcome \<times> bool)" where
  "call which spawn body ended start_time end_time req show =
     (case enter which spawn (build_instance req) of
        Inl e \<Rightarrow> Inl e
      | Inr (status, inst0) \<Rightarrow>
          let inst1 = (case status of
                         LocalSubprocessExecuteFailedStatus errno \<Rightarrow> inst0
                       | LocalSubprocessExecuteStatus \<Rightarrow> body inst0);
              (inst2, code_read) = (case ended of
                         Normal \<Rightarrow> (inst1, status_exit_code status inst1)
                       | KeyboardInterrupt \<Rightarrow> (case interrupt inst1 of (i, c) \<Rightarrow> (i, Some c)))
          in (case cmd which inst2 of
                Inl e \<Rightarrow> Inl e
              | Inr (c, inst3) \<Rightarrow>
                  Inr (\<lparr>request = req, show_on_standard = show, exit_code = code_read,
                        out = out_content inst2, err = err_content inst2,
                        start = start_time, end_t = end_time, resolved_cmd = c\<rparr>,
                       ended = KeyboardInterrupt)))"

text \<open>A request for a program that is not on the search path; spawning it fails with \<open>ENOENT\<close> (2).\<close>

definition missing_request :: ExecuteRequest where
  "missing_request =
     \<lparr>req_cmd = [''sys-must-be-missing''], req_cwd = ''.'', req_env = [''PATH'' \<mapsto> ''/usr/bin''],
      req_stdin = OFF\<rparr>"

definition no_path_request :: ExecuteRequest where
  "no_path_request =
     \<lparr>req_cmd = [''python'', ''-V''], req_cwd = ''.'', req_env = Map.empty, req_stdin = OFF\<rparr>"

definition path_request :: ExecuteRequest where
  "path_request =
     \<lparr>req_cmd = [''python'', ''-V''], req_cwd = ''.'', req_env = [''PATH'' \<mapsto> ''/usr/bin''],
      req_stdin = OFF\<rparr>"

definition which_nothing :: "string \<Rightarrow> string \<Rightarrow> string option" where
  "which_nothing c path = None"

definition which_usr_bin :: "string \<Rightarrow> string \<Rightarrow> string option" where
  "which_usr_bin c path = Some (path @ ''/'' @ c)"

definition spawn_enoent :: "string list \<Rightarrow> ExecuteRequest \<Rightarrow> int option + Popen" where
  "spawn_enoent c req = Inl (Some 2)"

section \<open>The spinner\<close>

text \<open>
  \<open>tox.util.spinner.Spinner\<close>. \<open>_envs\<close> is a dict from name to start time, in insertion
  order; \<open>stream\<close> is what has been written to the stream, in order. \<open>stop_spinner\<close> is the
  event created by \<open>__enter__\<close> (\<open>None\<close>: the attribute does not exist yet). The render thread
  is not part of the state; its calls of \<open>render_frame\<close> are calls like any other.
  \<open>td_human_readable\<close> formats a float and is a parameter of \<open>finalize\<close>.
\<close>

definition frames :: "nat list" where
  "frames = [0x280B, 0x2819, 0x2839, 0x2838, 0x283C, 0x2834, 0x2826, 0x2827, 0x2807, 0x280F]"

definition max_width :: nat where
  "max_width = 120"

definition CLEAR_LINE :: pystr where
  "CLEAR_LINE = 27 # ascii ''[K''"

record Spinner =
  envs :: "(pystr \<times> real) list"
  frame_index :: nat
  enabled :: bool
  stream :: "pystr list"
  stream_isatty :: bool
  os_name :: string
  stop_spinner :: "bool option"

definition Spinner_init :: "bool \<Rightarrow> bool \<Rightarrow> string \<Rightarrow> Spinner" where
  "Spinner_init is_enabled tty os =
     \<lparr>envs = [], frame_index = 0, enabled = is_enabled, stream = [], stream_isatty = tty,
      os_name = os, stop_spinner = None\<rparr>"

definition stream_write :: "pystr \<Rightarrow> Spinner \<Rightarrow> Spinner" where
  "stream_write text sp = sp\<lparr>stream := stream sp @ [text]\<rparr>"

definition linesep :: "string \<Rightarrow> pystr" where
  "linesep os = (if os = ''nt'' then [13, 10] else [10])"

text \<open>\<open>" | ".join(...)\<close>.\<close>

fun join :: "pystr \<Rightarrow> pystr list \<Rightarrow> pystr" where
  "join sep [] = []"
| "join sep [x] = x"
| "join sep (x # y # ys) = x @ sep @ join sep (y # ys)"

text \<open>\<open>add\<close>: \<open>self._envs[name] = datetime.now()\<close>.\<close>

definition add :: "real \<Rightarrow> pystr \<Rightarrow> Spinner \<Rightarrow> Spinner" where
  "add now key sp = sp\<lparr>envs := AList.update key now (envs sp)\<rparr>"

definition clear :: "Spinner \<Rightarrow> Spinner" where
  "clear sp = (if enabled sp then stream_write CLEAR_LINE (stream_write [13] sp) else sp)"

text \<open>\<open>frame\<close>: the rendered text and the spinner with its frame index advanced.\<close>

definition frame :: "Spinner \<Rightarrow> py_error + (pystr \<times> Spinner)" where
  "frame sp =
     (if length frames \<le> frame_index sp then Inl IndexError
      else
        let glyph = frames ! frame_index sp;
            sp1 = sp\<lparr>frame_index := (frame_index sp + 1) mod length frames\<rparr>;
            text_full = ascii ''['' @ ascii (str_nat (length (envs sp))) @ ascii ''] ''
                          @ join (ascii '' | '') (map fst (envs sp));
            text_frame = (if length text_full > max_width - 1
                          then take (max_width - 1 - 3) text_full @ ascii ''...''
                          else text_full)
        in Inr (glyph # ascii '' '' @ text_frame, sp1))"

definition render_frame :: "Spinner \<Rightarrow> py_error + Spinner" where
  "render_frame sp =
     (if enabled sp then
        (case frame (clear sp) of
           Inl e \<Rightarrow> Inl e
         | Inr (text, sp1) \<Rightarrow> Inr (stream_write (13 # text) sp1))
      else Inr sp)"

definition disable_cursor :: "Spinner \<Rightarrow> Spinner" where
  "disable_cursor sp =
     (if stream_isatty sp then
        (if os_name sp = ''nt'' then sp
         else if os_name sp = ''posix'' then stream_write (27 # ascii ''[?25l'') sp
         else sp)
      else sp)"

definition enable_cursor :: "Spinner \<Rightarrow> Spinner" where
  "enable_cursor sp =
     (if stream_isatty sp then
        (if os_name sp = ''nt'' then sp
         else if os_name sp = ''posix'' then stream_write (27 # ascii ''[?25h'') sp
         else sp)
      else sp)"

text \<open>\<open>__enter__\<close> and \<open>__exit__\<close>; the latter reads \<open>self._stop_spinner\<close>, which only \<open>__enter__\<close> sets.\<close>

definition spinner_enter :: "Spinner \<Rightarrow> Spinner" where
  "spinner_enter sp = (if enabled sp then disable_cursor sp else sp)\<lparr>stop_spinner := Some False\<rparr>"

definition spinner_exit :: "Spinner \<Rightarrow> Spinner \<times> py_error option" where
  "spinner_exit sp =
     (case stop_spinner sp of
        None \<Rightarrow> (sp, Some AttributeError)
      | Some is_set \<Rightarrow>
          if \<not> is_set then
            (let sp1 = sp\<lparr>stop_spinner := Some True, frame_index := 0\<rparr>
             in ((if enabled sp1 then enable_cursor (clear sp1) else sp1), None))
          else (sp, None))"

text \<open>
  \<open>finalize\<close>: the spinner afterwards and the exception raised, if any. \<open>self._envs[key]\<close>
  raises \<open>KeyError\<close> before anything is changed or written.
\<close>

definition finalize :: "(real \<Rightarrow> pystr) \<Rightarrow> real \<Rightarrow> pystr \<Rightarrow> pystr \<Rightarrow> Spinner \<Rightarrow> Spinner \<times> py_error option" where
  "finalize td_human_readable now key status sp =
     (case map_of (envs sp) key of
        None \<Rightarrow> (sp, Some KeyError)
      | Some start_at \<Rightarrow>
          let sp1 = sp\<lparr>envs := AList.delete key (envs sp)\<rparr>;
              sp2 = (if enabled sp1 then clear sp1 else sp1);
              sp3 = stream_write (status @ ascii '' '' @ key @ ascii '' in ''
                                   @ td_human_readable (now - start_at) @ linesep (os_name sp2)) sp2
          in if envs sp3 = [] then spinner_exit sp3 else (sp3, None))"

definition succeed :: "(real \<Rightarrow> pystr) \<Rightarrow> real \<Rightarrow> pystr \<Rightarrow> Spinner \<Rightarrow> Spinner \<times> py_error option" where
  "succeed td_human_readable now key sp = finalize td_human_readable now key (0x2714 # ascii '' OK'') sp"

definition fail :: "(real \<Rightarrow> pystr) \<Rightarrow> real \<Rightarrow> pystr \<Rightarrow> Spinner \<Rightarrow> Spinner \<times> py_error option" where
  "fail td_human_readable now key sp = finalize td_human_readable now key (0x2716 # ascii '' FAIL'') sp"

definition skip :: "(real \<Rightarrow> pystr) \<Rightarrow> real \<Rightarrow> pystr \<Rightarrow> Spinner \<Rightarrow> Spinner \<times> py_error option" where
  "skip td_human_readable now key sp = finalize td_human_readable now key (0x26A0 # ascii '' SKIP'') sp"

text \<open>The names currently running: the keys of \<open>_envs\<close>.\<close>

definition running :: "Spinner \<Rightarrow> pystr set" where
  "running sp = fst ` set (envs sp)"

text \<open>Spinners with two short names, and with two names of sixty characters each.\<close>

definition spinner_ab :: Spinner where
  "spinner_ab = add 0 (ascii ''b'') (add 0 (ascii ''a'') (spinner_enter (Spinner_init True False ''posix'')))"

definition spinner_long :: Spinner where
  "spinner_long =
     add 0 (replicate 60 98) (add 0 (replicate 60 97) (spinner_enter (Spinner_init True False ''posix'')))"

definition td_zero :: "real \<Rightarrow> pystr" where
  "td_zero delta = ascii ''0 second''"

section \<open>Outcome truthiness\<close>

text \<open>
  Claim C8. For every Outcome, \<open>bool(outcome)\<close> is true if and only if
  \<open>outcome.exit_code == 0\<close>; an unset exit code (\<open>None\<close>) is not zero, so it is falsy.
\<close>

theorem outcome_bool_iff_exit_code_zero:
  "outcome_bool oc = (exit_code oc = Some 0)"
  by (simp add: outcome_bool_def OK_def)

section \<open>Exit code of the report\<close>

lemma report_loop_all_ok:
  "snd (report_loop runs printed acc) = (acc \<and> (\<forall>r \<in> set runs. code r = 0))"
  by (induction runs arbitrary: printed acc) (auto simp: OK_def)

lemma report_loop_printed:
  "fst (report_loop runs printed acc) = printed @ map run_line runs"
  by (induction runs arbitrary: printed acc) auto

text \<open>
  Claim C1, as the code has it. The exit code returned by \<open>report\<close> is 0 when every
  environment's result has code 0; otherwise a run over exactly one environment returns that
  environment's exact code, and a run over several environments returns \<open>-1\<close> (not 1).
  An environment counts as failed whenever its code is not 0, skipped or not.
\<close>

theorem report_exit_code:
  "snd (report runs) =
     (if \<forall>r \<in> set runs. code r = 0 then 0
      else if length runs = 1 then code (hd runs) else - 1)"
proof -
  obtain printed all_ok where l: "report_loop runs [] True = (printed, all_ok)"
    by (cases "report_loop runs [] True")
  have "all_ok = (\<forall>r \<in> set runs. code r = 0)"
    using report_loop_all_ok [of runs "[]" True] l by simp
  then show ?thesis
    by (simp add: report_def l OK_def)
qed

theorem report_exit_code_witness:
  "snd (report [run_b, run_b]) = 0 \<and> snd (report [run_a\<lparr>code := 17\<rparr>]) = 17
   \<and> snd (report [run_b, run_a]) = - 1"
  using report_exit_code [of "[run_b, run_b]"] report_exit_code [of "[run_a\<lparr>code := 17\<rparr>]"]
    report_exit_code [of "[run_b, run_a]"]
  by (simp add: run_a_def run_b_def)

text \<open>
  The sequential scenario of the specification: \<open>a\<close> fails with code 1, \<open>b\<close> passes.
  A non-skipped environment failed and the run has two environments, yet the exit code
  is \<open>-1\<close>, not 1.
\<close>

theorem report_exit_code_counterexample:
  "(\<exists>r \<in> set [run_a, run_b]. \<not> skipped r \<and> code r \<noteq> 0) \<and> length [run_a, run_b] \<noteq> 1
   \<and> snd (report [run_a, run_b]) = - 1 \<and> snd (report [run_a, run_b]) \<noteq> 1"
  by (simp add: report_def run_a_def run_b_def OK_def)

section \<open>Batches of the scheduler\<close>

lemma collect_filter:
  "set order \<subseteq> dom (map_of todo) \<Longrightarrow>
   collect todo c order r n =
     Inr (r @ filter (ready todo c) order, n @ filter (\<lambda>e. \<not> ready todo c e) order)"
proof (induction order arbitrary: r n)
  case Nil
  then show ?case by simp
next
  case (Cons e order)
  then obtain d where d: "map_of todo e = Some d" by auto
  from Cons.prems have sub: "set order \<subseteq> dom (map_of todo)" by simp
  show ?case
    using d Cons.IH [OF sub] by (simp add: ready_def Diff_eq_empty_iff)
qed

lemma collect_Inr_dom:
  "collect todo c order r n = Inr res \<Longrightarrow> set order \<subseteq> dom (map_of todo)"
proof (induction order arbitrary: r n)
  case Nil
  then show ?case by simp
next
  case (Cons e order)
  then show ?case
    by (cases "map_of todo e") (auto split: if_splits)
qed

lemma map_of_run_order_loop:
  "map_of (run_order_loop st S names todo) e =
     (if e \<in> set names \<and> st e \<noteq> None then Some (S \<inter> set (the (st e))) else map_of todo e)"
proof (induction names arbitrary: todo)
  case Nil
  then show ?case by simp
next
  case (Cons a names)
  show ?case
  proof (cases "st a")
    case None
    then show ?thesis using Cons.IH [of todo] by auto
  next
    case (Some depends)
    then show ?thesis
      using Cons.IH [of "AList.update a (S \<inter> set depends) todo"]
      by (auto simp: update_conv')
  qed
qed

lemma run_order_todo:
  assumes "run_order topsort st to_run = Inr (order, todo)" and "map_of todo e = Some d"
  shows "\<exists>deps. st e = Some deps \<and> d = set to_run \<inter> set deps"
proof -
  from assms(1) have t: "todo = run_order_loop st (set to_run) to_run []"
    by (auto simp: run_order_def Let_def split: option.splits)
  show ?thesis
    using assms(2) unfolding t map_of_run_order_loop
    by (auto split: if_splits)
qed

lemma ready_mono: "ready todo c e \<Longrightarrow> c \<subseteq> c' \<Longrightarrow> ready todo c' e"
  by (auto simp: ready_def split: option.splits)

lemma gen_while_Inr:
  assumes "gen_while todo c order = Inr (batch, g)"
  shows "batch = filter (ready todo c) order \<and>
         (g = Finished \<and> order = [] \<or>
          g = Suspended (filter (\<lambda>e. \<not> ready todo c e) order) todo \<and> order \<noteq> [] \<and> set order \<subseteq> dom (map_of todo))"
proof (cases "order = []")
  case True
  with assms show ?thesis by (simp add: gen_while_def)
next
  case False
  with assms obtain res where r: "collect todo c order [] [] = Inr res"
    by (auto simp: gen_while_def split: sum.splits)
  have sub: "set order \<subseteq> dom (map_of todo)" by (rule collect_Inr_dom [OF r])
  show ?thesis
    using assms False sub by (simp add: gen_while_def collect_filter [OF sub])
qed


lemma driver_inv_init: "driver_inv st to_run init_driver"
  by (simp add: driver_inv_def init_driver_def)

lemma gen_next_inv:
  assumes g: "gen_next topsort st to_run c g0 = Inr (batch, g)"
    and inv0: "case g0 of
         NotStarted \<Rightarrow> True
       | Suspended order todo \<Rightarrow>
           (\<forall>e d. map_of todo e = Some d \<longrightarrow> (\<exists>deps. st e = Some deps \<and> d = set to_run \<inter> set deps))
       | Finished \<Rightarrow> True"
  shows "case g of
         NotStarted \<Rightarrow> False
       | Suspended order todo \<Rightarrow>
           set order \<subseteq> dom (map_of todo) \<and>
           (\<forall>e d. map_of todo e = Some d \<longrightarrow> (\<exists>deps. st e = Some deps \<and> d = set to_run \<inter> set deps)) \<and>
           (\<forall>e \<in> set batch. ready todo c e)
       | Finished \<Rightarrow> batch = []"
proof (cases g0)
  case NotStarted
  with g obtain order todo where ro: "run_order topsort st to_run = Inr (order, todo)"
    and gw: "gen_while todo c order = Inr (batch, g)"
    by (auto simp: gen_next_def split: sum.splits)
  have td: "\<forall>e d. map_of todo e = Some d \<longrightarrow> (\<exists>deps. st e = Some deps \<and> d = set to_run \<inter> set deps)"
    using run_order_todo [OF ro] by blast
  from gen_while_Inr [OF gw] td show ?thesis by auto
next
  case (Suspended order todo)
  with g have gw: "gen_while todo c order = Inr (batch, g)"
    by (simp add: gen_next_def)
  from inv0 Suspended
  have td: "\<forall>e d. map_of todo e = Some d \<longrightarrow> (\<exists>deps. st e = Some deps \<and> d = set to_run \<inter> set deps)"
    by simp
  from gen_while_Inr [OF gw] td show ?thesis by auto
next
  case Finished
  with g show ?thesis by (auto simp: gen_next_def)
qed

lemma wait_one_Inr:
  assumes "wait_one miss i w s = Inr (r, s1)"
  shows "generator s1 = generator s \<and> env_list s1 = env_list s \<and> completed s \<subseteq> completed s1
         \<and> submitted s1 = submitted s \<and> interrupted s1 = interrupted s \<and> finished s1 = finished s"
  using assms
  by (auto simp: wait_one_def Let_def split: if_splits prod.splits future.splits worker.splits)

lemma driver_step_inv:
  assumes inv: "driver_inv st to_run s"
    and step: "driver_step topsort st to_run miss ev s = Inr s'"
  shows "driver_inv st to_run s'"
proof (cases ev)
  case SetInterrupt
  with step have "s' = s\<lparr>interrupted := True\<rparr>" by (simp add: driver_step_def)
  with inv show ?thesis by (auto simp: driver_inv_def split: gen.splits)
next
  case Queue
  with step have nf: "\<not> finished s" and q: "queue_one st miss s = Inr s'"
    by (auto simp: driver_step_def split: if_splits)
  from q obtain e rest where el: "env_list s = e # rest"
    by (cases "env_list s") (auto simp: queue_one_def)
  from q el have s': "env_list s' = rest \<and> generator s' = generator s \<and> completed s' = completed s
      \<and> finished s' = finished s"
    by (auto simp: queue_one_def split: option.splits if_splits)
  from inv el nf s' show ?thesis
    by (cases "generator s") (auto simp: driver_inv_def)
next
  case (Complete i w)
  with step have nf: "\<not> finished s" and el: "env_list s = []"
    and wp: "wait_and_pull topsort st to_run miss i w s = Inr s'"
    by (auto simp: driver_step_def split: if_splits)
  from wp obtain r s1 batch g where w1: "wait_one miss i w s = Inr (r, s1)"
    and gn: "gen_next topsort st to_run (completed s1) (generator s1) = Inr (batch, g)"
    and s': "s' = s1\<lparr>env_list := batch, generator := g, finished := (batch = [] \<and> future_to_env s1 = [])\<rparr>"
    by (auto simp: wait_and_pull_def Let_def split: sum.splits prod.splits)
  note w = wait_one_Inr [OF w1]
  have "case generator s1 of
         NotStarted \<Rightarrow> True
       | Suspended order todo \<Rightarrow>
           (\<forall>e d. map_of todo e = Some d \<longrightarrow> (\<exists>deps. st e = Some deps \<and> d = set to_run \<inter> set deps))
       | Finished \<Rightarrow> True"
    using inv w by (cases "generator s") (auto simp: driver_inv_def)
  from gen_next_inv [OF gn this] show ?thesis
    unfolding s' by (cases g) (auto simp: driver_inv_def)
qed

lemma run_events_inv:
  "driver_inv st to_run s \<Longrightarrow> run_events topsort st to_run miss evs s = Inr s' \<Longrightarrow> driver_inv st to_run s'"
proof (induction evs arbitrary: s)
  case Nil
  then show ?case by simp
next
  case (Cons ev evs)
  from Cons.prems(2) obtain s1 where 1: "driver_step topsort st to_run miss ev s = Inr s1"
    and 2: "run_events topsort st to_run miss evs s1 = Inr s'"
    by (auto split: sum.splits)
  from Cons.IH [OF driver_step_inv [OF Cons.prems(1) 1] 2] show ?case .
qed

lemma submit_only_when_ready:
  assumes inv: "driver_inv st to_run s"
    and step: "driver_step topsort st to_run miss ev s = Inr s'"
    and sub: "submitted s' \<noteq> submitted s"
  shows "\<exists>e. submitted s' = submitted s @ [e] \<and> universe_deps st to_run e \<subseteq> completed s
             \<and> \<not> interrupted s"
proof (cases ev)
  case SetInterrupt
  with step sub show ?thesis by (auto simp: driver_step_def)
next
  case (Complete i w)
  with step obtain r s1 batch g where w1: "wait_one miss i w s = Inr (r, s1)"
    and s': "s' = s1\<lparr>env_list := batch, generator := g, finished := (batch = [] \<and> future_to_env s1 = [])\<rparr>"
    by (auto simp: driver_step_def wait_and_pull_def Let_def split: sum.splits prod.splits if_splits)
  from wait_one_Inr [OF w1] s' sub show ?thesis by simp
next
  case Queue
  with step have nf: "\<not> finished s" and q: "queue_one st miss s = Inr s'"
    by (auto simp: driver_step_def split: if_splits)
  from q obtain e rest where el: "env_list s = e # rest"
    by (cases "env_list s") (auto simp: queue_one_def)
  from q el sub have ni: "\<not> interrupted s" and s': "submitted s' = submitted s @ [e]"
    by (auto simp: queue_one_def split: option.splits if_splits)
  from inv el obtain order todo where g: "generator s = Suspended order todo"
    by (cases "generator s") (auto simp: driver_inv_def)
  from inv g el have rd: "ready todo (completed s) e"
    and td: "\<forall>e d. map_of todo e = Some d \<longrightarrow> (\<exists>deps. st e = Some deps \<and> d = set to_run \<inter> set deps)"
    by (auto simp: driver_inv_def)
  from rd obtain d where d: "map_of todo e = Some d" "d \<subseteq> completed s"
    by (auto simp: ready_def split: option.splits)
  from td d(1) obtain deps where "st e = Some deps" "d = set to_run \<inter> set deps" by blast
  with d(2) have "universe_deps st to_run e \<subseteq> completed s"
    by (simp add: universe_deps_def)
  with ni s' show ?thesis by blast
qed




section \<open>Submission waits for dependencies\<close>

text \<open>
  Claim C2. In every state the driver loop reaches from its start, for every universe of
  environments, dependency graph and order, a step that submits a worker to the pool submits
  exactly one, for an environment whose in-universe dependencies are all in \<open>completed\<close>;
  and it does so only while the interrupt is not set (with the interrupt set the driver
  submits nothing at all).
\<close>

theorem no_submit_before_dependencies_completed:
  assumes "run_events topsort st to_run miss evs init_driver = Inr s"
    and "driver_step topsort st to_run miss ev s = Inr s'"
    and "submitted s' \<noteq> submitted s"
  shows "\<exists>e. submitted s' = submitted s @ [e] \<and> universe_deps st to_run e \<subseteq> completed s
             \<and> \<not> interrupted s"
  using submit_only_when_ready [OF run_events_inv [OF driver_inv_init assms(1)] assms(2) assms(3)] .

lemmas driver_eval = driver_step_def wait_and_pull_def wait_one_def queue_one_def gen_next_def
  run_order_def gen_while_def init_driver_def xyz_state_def xyz_sort_def passed_def Let_def universe_deps_def


theorem no_submit_before_dependencies_completed_witness:
  "run_events xyz_sort xyz_state [''x'', ''y'', ''z''] 0
      [Complete 0 Crashed, Queue, Complete 0 (Returned (passed ''x''))] init_driver = Inr s_y
   \<and> driver_step xyz_sort xyz_state [''x'', ''y'', ''z''] 0 Queue s_y
      = Inr (s_y\<lparr>env_list := [], submitted := [''x'', ''y''], future_to_env := [(Pending, ''y'')]\<rparr>)
   \<and> submitted s_y = [''x'']
   \<and> universe_deps xyz_state [''x'', ''y'', ''z''] ''y'' = {''x''}
   \<and> completed s_y = {''x''} \<and> \<not> interrupted s_y"
proof -
  have r: "run_events xyz_sort xyz_state [''x'', ''y'', ''z''] 0
      [Complete 0 Crashed, Queue, Complete 0 (Returned (passed ''x''))] init_driver = Inr s_y"
    by (simp add: driver_eval s_y_def)
  have q: "driver_step xyz_sort xyz_state [''x'', ''y'', ''z''] 0 Queue s_y
      = Inr (s_y\<lparr>env_list := [], submitted := [''x'', ''y''], future_to_env := [(Pending, ''y'')]\<rparr>)"
    by (simp add: driver_eval s_y_def)
  have n: "submitted (s_y\<lparr>env_list := [], submitted := [''x'', ''y''], future_to_env := [(Pending, ''y'')]\<rparr>)
      \<noteq> submitted s_y"
    by (simp add: s_y_def)
  from no_submit_before_dependencies_completed [OF r q n] r q show ?thesis
    by (simp add: s_y_def driver_eval)
qed

section \<open>Interrupted and cancelled environments\<close>

lemma gen_next_total:
  assumes "driver_inv st to_run s" and "generator s \<noteq> NotStarted"
  shows "\<exists>batch g. gen_next topsort st to_run c (generator s) = Inr (batch, g)"
proof (cases "generator s")
  case NotStarted
  with assms(2) show ?thesis by simp
next
  case (Suspended order todo)
  with assms(1) have sub: "set order \<subseteq> dom (map_of todo)"
    by (simp add: driver_inv_def)
  show ?thesis
    using Suspended collect_filter [OF sub, of c "[]" "[]"] by (simp add: gen_next_def gen_while_def)
next
  case Finished
  then show ?thesis by (simp add: gen_next_def)
qed

lemma queue_interrupted:
  assumes inv: "driver_inv st to_run s" and el: "env_list s = e # rest" and i: "interrupted s"
  shows "driver_step topsort st to_run miss Queue s =
           Inr (s\<lparr>env_list := rest,
                  torn_down := torn_down s @ [e],
                  future_to_env := future_to_env s @
                    [(Resolved \<lparr>name = e, skipped = False, code = - 2, outcomes = [], duration = miss\<rparr>, e)]\<rparr>)"
proof -
  from inv el have nf: "\<not> finished s" by (auto simp: driver_inv_def)
  from inv el obtain order todo where g: "generator s = Suspended order todo"
    by (cases "generator s") (auto simp: driver_inv_def)
  from inv g el have "ready todo (completed s) e"
    and td: "\<forall>e d. map_of todo e = Some d \<longrightarrow> (\<exists>deps. st e = Some deps \<and> d = set to_run \<inter> set deps)"
    by (auto simp: driver_inv_def)
  then obtain deps where "st e = Some deps"
    by (auto simp: ready_def split: option.splits)
  with nf el i show ?thesis
    by (simp add: driver_step_def queue_one_def)
qed

lemma complete_cancelled:
  assumes inv: "driver_inv st to_run s" and el: "env_list s = []" and intr: "interrupted s"
    and i: "i < length (future_to_env s)" and f: "future_to_env s ! i = (Pending, e)"
  shows "\<exists>s'. driver_step topsort st to_run miss (Complete i Cancelled) s = Inr s' \<and>
            results s' = results s @ [\<lparr>name = e, skipped = False, code = - 3, outcomes = [], duration = miss\<rparr>] \<and>
            torn_down s' = torn_down s @ [e] \<and> completed s' = insert e (completed s) \<and>
            submitted s' = submitted s"
proof -
  from i have ne: "future_to_env s \<noteq> []" by auto
  with inv have nf: "\<not> finished s" and ns: "generator s \<noteq> NotStarted"
    by (auto simp: driver_inv_def)
  define s1 where "s1 = s\<lparr>future_to_env := take i (future_to_env s) @ drop (Suc i) (future_to_env s),
      torn_down := torn_down s @ [e],
      results := results s @ [\<lparr>name = e, skipped = False, code = - 3, outcomes = [], duration = miss\<rparr>],
      completed := insert e (completed s)\<rparr>"
  have w: "wait_one miss i Cancelled s =
      Inr (Some \<lparr>name = e, skipped = False, code = - 3, outcomes = [], duration = miss\<rparr>, s1)"
    using ne i f intr by (simp add: wait_one_def s1_def)
  obtain batch g where gn: "gen_next topsort st to_run (completed s1) (generator s) = Inr (batch, g)"
    using gen_next_total [OF inv ns] by blast
  have "generator s1 = generator s" by (simp add: s1_def)
  with w gn nf el show ?thesis
    by (simp add: driver_step_def wait_and_pull_def s1_def)
qed

text \<open>
  Claim C5. In every reached state with the interrupt set: queueing a ready environment
  resolves a future to a result with code \<open>-2\<close> and no outcomes, calls the environment's
  teardown and submits no worker; and when the future of a worker in flight is cancelled,
  the driver calls teardown and records a result with code \<open>-3\<close> and no outcomes.
  Both steps succeed.
\<close>

theorem interrupted_and_cancelled_results:
  assumes "run_events topsort st to_run miss evs init_driver = Inr s" and "interrupted s"
  shows "(\<forall>e rest. env_list s = e # rest \<longrightarrow>
            (\<exists>s'. driver_step topsort st to_run miss Queue s = Inr s' \<and>
                  future_to_env s' = future_to_env s @
                    [(Resolved \<lparr>name = e, skipped = False, code = - 2, outcomes = [], duration = miss\<rparr>, e)] \<and>
                  torn_down s' = torn_down s @ [e] \<and> submitted s' = submitted s \<and> env_list s' = rest))
         \<and> (\<forall>i e. env_list s = [] \<and> i < length (future_to_env s) \<and> future_to_env s ! i = (Pending, e) \<longrightarrow>
            (\<exists>s'. driver_step topsort st to_run miss (Complete i Cancelled) s = Inr s' \<and>
                  results s' = results s @
                    [\<lparr>name = e, skipped = False, code = - 3, outcomes = [], duration = miss\<rparr>] \<and>
                  torn_down s' = torn_down s @ [e] \<and> completed s' = insert e (completed s) \<and>
                  submitted s' = submitted s))"
proof -
  note inv = run_events_inv [OF driver_inv_init assms(1)]
  show ?thesis
  proof (intro conjI allI impI)
    fix e rest assume "env_list s = e # rest"
    from queue_interrupted [OF inv this assms(2), of topsort miss]
    show "\<exists>s'. driver_step topsort st to_run miss Queue s = Inr s' \<and>
                  future_to_env s' = future_to_env s @
                    [(Resolved \<lparr>name = e, skipped = False, code = - 2, outcomes = [], duration = miss\<rparr>, e)] \<and>
                  torn_down s' = torn_down s @ [e] \<and> submitted s' = submitted s \<and> env_list s' = rest"
      by simp
  next
    fix i e
    assume "env_list s = [] \<and> i < length (future_to_env s) \<and> future_to_env s ! i = (Pending, e)"
    then show "\<exists>s'. driver_step topsort st to_run miss (Complete i Cancelled) s = Inr s' \<and>
                  results s' = results s @
                    [\<lparr>name = e, skipped = False, code = - 3, outcomes = [], duration = miss\<rparr>] \<and>
                  torn_down s' = torn_down s @ [e] \<and> completed s' = insert e (completed s) \<and>
                  submitted s' = submitted s"
      using complete_cancelled [OF inv _ assms(2), of i e topsort miss] by blast
  qed
qed

theorem interrupted_and_cancelled_results_witness:
  "run_events xyz_sort xyz_state [''x'', ''y'', ''z''] 0 [Complete 0 Crashed, Queue, SetInterrupt] init_driver
     = Inr s_running
   \<and> interrupted s_running \<and> env_list s_running = [] \<and> future_to_env s_running ! 0 = (Pending, ''x'')
   \<and> driver_step xyz_sort xyz_state [''x'', ''y'', ''z''] 0 (Complete 0 Cancelled) s_running = Inr s_cancelled
   \<and> results s_cancelled = [\<lparr>name = ''x'', skipped = False, code = - 3, outcomes = [], duration = 0\<rparr>]
   \<and> run_events xyz_sort xyz_state [''x'', ''y'', ''z''] 0
        [Complete 0 Crashed, Queue, SetInterrupt, Complete 0 Cancelled] init_driver = Inr s_cancelled
   \<and> interrupted s_cancelled \<and> env_list s_cancelled = [''y'']
   \<and> driver_step xyz_sort xyz_state [''x'', ''y'', ''z''] 0 Queue s_cancelled =
        Inr (s_cancelled\<lparr>env_list := [], torn_down := [''x'', ''y''],
               future_to_env := [(Resolved \<lparr>name = ''y'', skipped = False, code = - 2, outcomes = [],
                                             duration = 0\<rparr>, ''y'')]\<rparr>)"
proof -
  have r1: "run_events xyz_sort xyz_state [''x'', ''y'', ''z''] 0 [Complete 0 Crashed, Queue, SetInterrupt]
      init_driver = Inr s_running"
    by (simp add: driver_eval s_running_def)
  have r2: "run_events xyz_sort xyz_state [''x'', ''y'', ''z''] 0
      [Complete 0 Crashed, Queue, SetInterrupt, Complete 0 Cancelled] init_driver = Inr s_cancelled"
    by (simp add: driver_eval s_cancelled_def)
  have i1: "interrupted s_running" by (simp add: s_running_def)
  have i2: "interrupted s_cancelled" by (simp add: s_cancelled_def)
  have p1: "env_list s_running = [] \<and> 0 < length (future_to_env s_running)
      \<and> future_to_env s_running ! 0 = (Pending, ''x'')"
    by (simp add: s_running_def)
  have p2: "env_list s_cancelled = [''y'']" by (simp add: s_cancelled_def)
  from interrupted_and_cancelled_results [OF r1 i1] p1
  have "\<exists>s'. driver_step xyz_sort xyz_state [''x'', ''y'', ''z''] 0 (Complete 0 Cancelled) s_running = Inr s' \<and>
      results s' = results s_running @ [\<lparr>name = ''x'', skipped = False, code = - 3, outcomes = [], duration = 0\<rparr>]"
    by blast
  moreover from interrupted_and_cancelled_results [OF r2 i2] p2
  have "\<exists>s'. driver_step xyz_sort xyz_state [''x'', ''y'', ''z''] 0 Queue s_cancelled = Inr s' \<and>
      future_to_env s' = future_to_env s_cancelled @
        [(Resolved \<lparr>name = ''y'', skipped = False, code = - 2, outcomes = [], duration = 0\<rparr>, ''y'')]"
    by blast
  ultimately show ?thesis
    using r1 r2 by (simp add: driver_eval s_running_def s_cancelled_def)
qed

section \<open>The interrupt cascade\<close>

lemmas popen_eval = interrupt_def cascade_def spec_cascade_def communicate_timeout_def
  communicate_killed_def communicate_dead_def reaped_def kill_def terminate_def send_signal_int_def
  deliver_def WAIT_INTERRUPT_def WAIT_TERMINATE_def Let_def OK_def

text \<open>
  What the cascade does with a live child, whatever the child does: it ends after the soft
  interrupt, after terminate, or after kill; both timed waits are 300 ms; the child has an
  exit code afterwards.
\<close>

lemma cascade_trace:
  "trace (fst (cascade proc)) = trace proc @ [Send SIGINT, Communicate (Some 300)]
   \<or> trace (fst (cascade proc)) =
       trace proc @ [Send SIGINT, Communicate (Some 300), Send SIGTERM, Communicate (Some 300)]
   \<or> trace (fst (cascade proc)) =
       trace proc @ [Send SIGINT, Communicate (Some 300), Send SIGTERM, Communicate (Some 300),
                     Send SIGKILL, Communicate None]"
  by (auto simp: popen_eval split: option.splits prod.splits if_splits)

lemma cascade_returncode: "returncode (fst (cascade proc)) \<noteq> None"
  by (auto simp: popen_eval split: option.splits prod.splits if_splits)

text \<open>
  Claim C3. The cascade is to wait up to 300 ms after the soft interrupt and up to 200 ms
  after terminate before it kills. On a child that ignores the soft interrupt and exits by
  itself 250 ms after terminate, \<open>interrupt\<close> waits 300 ms after terminate as well, never
  kills, and returns the child's own code 0; the cascade with the 200 ms budget kills the
  child there and returns the kill code.
\<close>

theorem interrupt_terminate_wait_divergence:
  "(case interrupt ((build_instance path_request)\<lparr>process := Some slow_child\<rparr>) of
      (inst, c) \<Rightarrow>
        c = 0 \<and> map_option trace (process inst) =
          Some [Send SIGINT, Communicate (Some 300), Send SIGTERM, Communicate (Some 300)])
   \<and> (case spec_cascade slow_child of
        (p, oe) \<Rightarrow>
          returncode p = Some (- 9) \<and> trace p =
            [Send SIGINT, Communicate (Some 300), Send SIGTERM, Communicate (Some 200),
             Send SIGKILL, Communicate None])"
  by (simp add: popen_eval build_instance_def slow_child_def)

section \<open>The resolved command\<close>

lemma cmd_cached:
  "cmd which inst = Inr (c, inst') \<Longrightarrow> cmd_cache inst' = Some c \<and> inst_request inst' = inst_request inst
     \<and> process inst' = process inst \<and> out_content inst' = out_content inst
     \<and> err_content inst' = err_content inst"
  by (auto simp: cmd_def Let_def split: option.splits list.splits)

lemma cmd_of_cached: "cmd_cache inst = Some c \<Longrightarrow> cmd which inst = Inr (c, inst)"
  by (simp add: cmd_def)

lemma cmd_reads_cached:
  "cmd_cache inst = Some c \<Longrightarrow> cmd_reads ws inst = replicate (length ws) (Inr c)"
  by (induction ws) (simp_all add: cmd_of_cached)

text \<open>
  Claim C9. When the request's environment has no \<open>PATH\<close> key, reading \<open>cmd\<close> on an instance
  that has nothing cached raises a lookup error (\<open>KeyError\<close>; \<open>IndexError\<close> when the argv
  is empty, which is looked at first) and does not pass the argv through. Once a read has
  returned a command, every later read returns that same command and leaves the instance
  as it is, whatever the file system then holds.
\<close>

theorem cmd_needs_path_and_is_cached:
  "(cmd_cache inst = None \<and> req_env (inst_request inst) ''PATH'' = None \<longrightarrow>
      cmd which inst = Inl (if req_cmd (inst_request inst) = [] then IndexError else KeyError))
   \<and> (cmd which inst = Inr (c, inst') \<longrightarrow>
        cmd which' inst' = Inr (c, inst') \<and> cmd_reads ws inst' = replicate (length ws) (Inr c))"
proof (intro conjI impI)
  assume "cmd_cache inst = None \<and> req_env (inst_request inst) ''PATH'' = None"
  then show "cmd which inst = Inl (if req_cmd (inst_request inst) = [] then IndexError else KeyError)"
    by (simp add: cmd_def split: list.splits)
next
  assume a: "cmd which inst = Inr (c, inst')"
  from cmd_cached [OF a] show "cmd which' inst' = Inr (c, inst')"
    by (simp add: cmd_of_cached)
  from cmd_cached [OF a] show "cmd_reads ws inst' = replicate (length ws) (Inr c)"
    by (simp add: cmd_reads_cached)
qed

theorem cmd_needs_path_and_is_cached_witness:
  "cmd_cache (build_instance no_path_request) = None
   \<and> req_env (inst_request (build_instance no_path_request)) ''PATH'' = None
   \<and> cmd which_nothing (build_instance no_path_request) = Inl KeyError
   \<and> cmd which_usr_bin (build_instance path_request)
       = Inr ([''/usr/bin/python'', ''-V''],
              (build_instance path_request)\<lparr>cmd_cache := Some [''/usr/bin/python'', ''-V'']\<rparr>)
   \<and> cmd which_nothing ((build_instance path_request)\<lparr>cmd_cache := Some [''/usr/bin/python'', ''-V'']\<rparr>)
       = Inr ([''/usr/bin/python'', ''-V''],
              (build_instance path_request)\<lparr>cmd_cache := Some [''/usr/bin/python'', ''-V'']\<rparr>)
   \<and> cmd_reads [which_nothing, which_usr_bin]
         ((build_instance path_request)\<lparr>cmd_cache := Some [''/usr/bin/python'', ''-V'']\<rparr>)
       = [Inr [''/usr/bin/python'', ''-V''], Inr [''/usr/bin/python'', ''-V'']]"
proof -
  have a: "cmd_cache (build_instance no_path_request) = None
      \<and> req_env (inst_request (build_instance no_path_request)) ''PATH'' = None"
    by (simp add: build_instance_def no_path_request_def)
  have b: "cmd which_usr_bin (build_instance path_request)
       = Inr ([''/usr/bin/python'', ''-V''],
              (build_instance path_request)\<lparr>cmd_cache := Some [''/usr/bin/python'', ''-V'']\<rparr>)"
    by (simp add: cmd_def Let_def build_instance_def path_request_def which_usr_bin_def)
  have n: "req_cmd (inst_request (build_instance no_path_request)) \<noteq> []"
    by (simp add: build_instance_def no_path_request_def)
  have 1: "cmd which_nothing (build_instance no_path_request) = Inl KeyError"
    using cmd_needs_path_and_is_cached [of "build_instance no_path_request" which_nothing] a n
    by simp
  have 2: "cmd which_nothing ((build_instance path_request)\<lparr>cmd_cache := Some [''/usr/bin/python'', ''-V'']\<rparr>)
       = Inr ([''/usr/bin/python'', ''-V''],
              (build_instance path_request)\<lparr>cmd_cache := Some [''/usr/bin/python'', ''-V'']\<rparr>)
     \<and> cmd_reads [which_nothing, which_usr_bin]
         ((build_instance path_request)\<lparr>cmd_cache := Some [''/usr/bin/python'', ''-V'']\<rparr>)
       = replicate (length [which_nothing, which_usr_bin]) (Inr [''/usr/bin/python'', ''-V''])"
    using cmd_needs_path_and_is_cached [of "build_instance path_request" which_usr_bin
        "[''/usr/bin/python'', ''-V'']"
        "(build_instance path_request)\<lparr>cmd_cache := Some [''/usr/bin/python'', ''-V'']\<rparr>"
        which_nothing "[which_nothing, which_usr_bin]"] b
    by blast
  have 3: "replicate (length [which_nothing, which_usr_bin]) (Inr [''/usr/bin/python'', ''-V''])
      = ([Inr [''/usr/bin/python'', ''-V''], Inr [''/usr/bin/python'', ''-V'']] :: (py_error + string list) list)"
    by (simp add: numeral_2_eq_2)
  show ?thesis
    using a b 1 2 unfolding 3 by blast
qed

section \<open>Spawn failure\<close>

text \<open>
  Claim C6, as the code has it. For a request with a non-empty argv and a \<open>PATH\<close>, when
  spawning the resolved command raises an OS error and the caller's block ends without a
  keyboard interrupt, the call gives an outcome whose exit code is the error's number, with
  empty \<open>out\<close> and \<open>err\<close>, which is falsy, and whose resolved command is the original argv
  when the search found no executable. Error numbers of the operating system are not 0.
\<close>

theorem spawn_failure_outcome:
  assumes "req_cmd req = c0 # rest" and "req_env req ''PATH'' = Some path"
    and "spawn (case which c0 path of None \<Rightarrow> req_cmd req | Some executable \<Rightarrow> executable # rest) req
           = Inl errno"
    and "errno \<noteq> Some 0"
  shows "\<exists>oc. call which spawn body Normal start_time end_time req on_std = Inr (oc, False)
           \<and> exit_code oc = errno \<and> out oc = [] \<and> err oc = [] \<and> \<not> outcome_bool oc
           \<and> (which c0 path = None \<longrightarrow> resolved_cmd oc = req_cmd req)"
proof -
  define c where "c = (case which c0 path of None \<Rightarrow> req_cmd req | Some executable \<Rightarrow> executable # rest)"
  define inst where "inst = (build_instance req)\<lparr>cmd_cache := Some c\<rparr>"
  have c1: "cmd which (build_instance req) = Inr (c, inst)"
    using assms(1,2) by (simp add: cmd_def build_instance_def Let_def c_def inst_def split: option.splits)
  have rq: "inst_request inst = req" by (simp add: inst_def build_instance_def)
  have e: "enter which spawn (build_instance req) = Inr (LocalSubprocessExecuteFailedStatus errno, inst)"
    using c1 assms(3) rq by (simp add: enter_def c_def)
  have c2: "cmd which inst = Inr (c, inst)"
    by (simp add: cmd_of_cached inst_def)
  have oe: "out_content inst = [] \<and> err_content inst = []"
    by (simp add: inst_def build_instance_def)
  have res: "which c0 path = None \<longrightarrow> c = req_cmd req"
    by (simp add: c_def)
  show ?thesis
    using e c2 oe res assms(4)
    by (simp add: call_def status_exit_code_def outcome_bool_def OK_def)
qed

theorem spawn_failure_outcome_witness:
  "req_cmd missing_request = [''sys-must-be-missing''] \<and> req_env missing_request ''PATH'' = Some ''/usr/bin''
   \<and> which_nothing ''sys-must-be-missing'' ''/usr/bin'' = None
   \<and> spawn_enoent [''sys-must-be-missing''] missing_request = Inl (Some 2)
   \<and> call which_nothing spawn_enoent id Normal 0 1 missing_request False
       = Inr (\<lparr>request = missing_request, show_on_standard = False, exit_code = Some 2,
               out = [], err = [], start = 0, end_t = 1, resolved_cmd = [''sys-must-be-missing'']\<rparr>, False)
   \<and> \<not> outcome_bool \<lparr>request = missing_request, show_on_standard = False, exit_code = Some 2,
               out = [], err = [], start = 0, end_t = 1, resolved_cmd = [''sys-must-be-missing'']\<rparr>"
proof -
  have a: "req_cmd missing_request = [''sys-must-be-missing'']"
    and b: "req_env missing_request ''PATH'' = Some ''/usr/bin''"
    by (simp_all add: missing_request_def)
  have c: "spawn_enoent (case which_nothing ''sys-must-be-missing'' ''/usr/bin'' of
        None \<Rightarrow> req_cmd missing_request | Some executable \<Rightarrow> executable # []) missing_request = Inl (Some 2)"
    by (simp add: spawn_enoent_def)
  have d: "Some (2::int) \<noteq> Some 0" by simp
  from spawn_failure_outcome [where which = which_nothing and req = missing_request
      and spawn = spawn_enoent and body = id and start_time = 0 and end_time = 1 and on_std = False,
      OF a b c d]
    a b show ?thesis
    by (auto simp: call_def enter_def cmd_def Let_def build_instance_def missing_request_def
        which_nothing_def spawn_enoent_def status_exit_code_def outcome_bool_def OK_def)
qed

text \<open>
  The spawn of a missing program fails with error number 2 and the caller's block is ended by
  a keyboard interrupt: \<open>interrupt\<close> finds no process and returns \<open>Outcome.OK\<close>, so the
  outcome carries exit code 0, not the error's number, and is truthy.
\<close>

theorem spawn_failure_outcome_counterexample:
  "req_cmd missing_request = [''sys-must-be-missing''] \<and> req_env missing_request ''PATH'' = Some ''/usr/bin''
   \<and> spawn_enoent [''sys-must-be-missing''] missing_request = Inl (Some 2)
   \<and> call which_nothing spawn_enoent id KeyboardInterrupt 0 1 missing_request False
       = Inr (\<lparr>request = missing_request, show_on_standard = False, exit_code = Some 0,
               out = [], err = [], start = 0, end_t = 1, resolved_cmd = [''sys-must-be-missing'']\<rparr>, True)
   \<and> Some (0::int) \<noteq> Some 2
   \<and> outcome_bool \<lparr>request = missing_request, show_on_standard = False, exit_code = Some 0,
               out = [], err = [], start = 0, end_t = 1, resolved_cmd = [''sys-must-be-missing'']\<rparr>"
  by (simp add: call_def enter_def cmd_def interrupt_def Let_def build_instance_def missing_request_def
      which_nothing_def spawn_enoent_def outcome_bool_def OK_def)

section \<open>The spinner's frame\<close>

lemmas spinner_eval = frame_def frames_def max_width_def ascii_def add_def spinner_enter_def
  Spinner_init_def disable_cursor_def Let_def stream_write_def spinner_ab_def spinner_long_def
  clear_def finalize_def spinner_exit_def enable_cursor_def linesep_def

text \<open>
  Claim C7, as the code has it. A rendered frame is the glyph at the frame index, a space, and
  a text: \<open>[n]\<close> with the number of running environments, a space, and their names joined
  by \<open>" | "\<close> (not by commas). The text is at most \<open>max_width - 1\<close> characters long: when it
  would be longer it is cut to \<open>max_width - 4\<close> characters followed by three dots. The frame
  index advances by one, around the ten glyphs.
\<close>

theorem frame_text:
  assumes "frame_index sp < length frames"
  shows "\<exists>text. frame sp =
            Inr (frames ! frame_index sp # ascii '' '' @ text,
                 sp\<lparr>frame_index := (frame_index sp + 1) mod length frames\<rparr>)
          \<and> length text \<le> max_width - 1
          \<and> (let text_full = ascii ''['' @ ascii (str_nat (length (envs sp))) @ ascii ''] ''
                                @ join (ascii '' | '') (map fst (envs sp))
             in text = (if length text_full \<le> max_width - 1 then text_full
                        else take (max_width - 4) text_full @ ascii ''...''))"
  using assms by (auto simp: frame_def Let_def max_width_def ascii_def)

theorem frame_text_witness:
  "frame_index spinner_ab < length frames
   \<and> frame spinner_ab = Inr (0x280B # ascii '' [2] a | b'', spinner_ab\<lparr>frame_index := 1\<rparr>)
   \<and> length (ascii ''[2] a | b'') \<le> max_width - 1"
proof -
  have a: "frame_index spinner_ab < length frames"
    by (simp add: spinner_eval)
  have b: "frame spinner_ab = Inr (0x280B # ascii '' [2] a | b'', spinner_ab\<lparr>frame_index := 1\<rparr>)"
    by (simp add: spinner_eval str_nat.simps)
  from frame_text [OF a] a b show ?thesis
    by (simp add: max_width_def ascii_def)
qed

text \<open>
  With \<open>a\<close> and \<open>b\<close> running the frame does not contain the comma-joined names \<open>a,b\<close>; with
  two names of sixty characters the frame is 121 characters long, one more than \<open>max_width\<close>.
\<close>

theorem frame_counterexample:
  "frame spinner_ab = Inr (0x280B # ascii '' [2] a | b'', spinner_ab\<lparr>frame_index := 1\<rparr>)
   \<and> join (ascii '','') (map fst (envs spinner_ab)) = ascii ''a,b''
   \<and> \<not> sublist (ascii ''a,b'') (0x280B # ascii '' [2] a | b'')
   \<and> (case frame spinner_long of Inl e \<Rightarrow> False | Inr (line, sp) \<Rightarrow> length line = 121 \<and> max_width < length line)"
  by (simp add: spinner_eval str_nat.simps sublist_code)

section \<open>Finalizing a name\<close>

lemma finalize_missing:
  "map_of (envs sp) key = None \<Longrightarrow> finalize td now key status sp = (sp, Some KeyError)"
  by (simp add: finalize_def)

lemma running_add: "running (add now key sp) = insert key (running sp)"
  by (simp add: running_def add_def dom_update)

lemma running_None: "(map_of (envs sp) key = None) = (key \<notin> running sp)"
  by (simp add: running_def map_of_eq_None_iff)

lemma spinner_exit_envs: "envs (fst (spinner_exit sp)) = envs sp"
  by (simp add: spinner_exit_def Let_def enable_cursor_def clear_def stream_write_def split: option.splits)

lemma finalize_running:
  assumes "map_of (envs sp) key = Some start_at"
  shows "running (fst (finalize td now key status sp)) = running sp - {key}"
proof -
  have "envs (fst (finalize td now key status sp)) = AList.delete key (envs sp)"
    using assms
    by (simp add: finalize_def Let_def spinner_exit_envs clear_def stream_write_def)
  then show ?thesis
    by (auto simp: running_def AList.delete_eq)
qed

text \<open>
  Claim C10. The running set is empty at first, \<open>add\<close> inserts a name and nothing else does.
  For a name that is not in the running set (never added, or finalized since), \<open>finalize\<close>,
  and so \<open>succeed\<close>, \<open>fail\<close> and \<open>skip\<close>, raise \<open>KeyError\<close> and leave the spinner as it
  was: no line is written. For a running name \<open>finalize\<close> does not raise \<open>KeyError\<close> and
  removes the name from the running set, so that finalizing it again raises \<open>KeyError\<close>.
\<close>

theorem finalize_needs_running_name:
  "running (Spinner_init is_enabled tty os) = {}
   \<and> running (add now0 name0 sp) = insert name0 (running sp)
   \<and> (key \<notin> running sp \<longrightarrow>
        finalize td now key status sp = (sp, Some KeyError)
        \<and> succeed td now key sp = (sp, Some KeyError)
        \<and> fail td now key sp = (sp, Some KeyError)
        \<and> skip td now key sp = (sp, Some KeyError))
   \<and> (key \<in> running sp \<longrightarrow>
        (case finalize td now key status sp of
           (sp', raised) \<Rightarrow>
             raised \<noteq> Some KeyError \<and> running sp' = running sp - {key}
             \<and> finalize td' now' key status' sp' = (sp', Some KeyError)))"
proof (intro conjI impI)
  show "running (Spinner_init is_enabled tty os) = {}"
    by (simp add: running_def Spinner_init_def)
  show "running (add now0 name0 sp) = insert name0 (running sp)"
    by (rule running_add)
next
  assume "key \<notin> running sp"
  then have n: "map_of (envs sp) key = None" by (simp add: running_None)
  show "finalize td now key status sp = (sp, Some KeyError)"
    by (rule finalize_missing [OF n])
  show "succeed td now key sp = (sp, Some KeyError)"
    by (simp add: succeed_def finalize_missing [OF n])
  show "fail td now key sp = (sp, Some KeyError)"
    by (simp add: fail_def finalize_missing [OF n])
  show "skip td now key sp = (sp, Some KeyError)"
    by (simp add: skip_def finalize_missing [OF n])
next
  assume "key \<in> running sp"
  then obtain start_at where s: "map_of (envs sp) key = Some start_at"
    using running_None [of sp key] by auto
  obtain sp' raised where f: "finalize td now key status sp = (sp', raised)"
    by (cases "finalize td now key status sp")
  have r: "running sp' = running sp - {key}"
    using finalize_running [OF s, of td now status] f by simp
  then have "key \<notin> running sp'" by simp
  then have again: "finalize td' now' key status' sp' = (sp', Some KeyError)"
    by (simp add: finalize_missing running_None)
  have "raised \<noteq> Some KeyError"
    using f s
    by (auto simp: finalize_def Let_def spinner_exit_def split: if_splits option.splits)
  with r again f
  show "case finalize td now key status sp of
           (sp', raised) \<Rightarrow>
             raised \<noteq> Some KeyError \<and> running sp' = running sp - {key}
             \<and> finalize td' now' key status' sp' = (sp', Some KeyError)"
    by simp
qed


lemma running_spinner_ab: "running spinner_ab = {ascii ''a'', ascii ''b''}"
    by (simp add: running_def spinner_eval)

lemma names_abc: "ascii ''c'' \<notin> {ascii ''a'', ascii ''b''}" "ascii ''a'' \<in> {ascii ''a'', ascii ''b''}"
    "{ascii ''a'', ascii ''b''} - {ascii ''a''} = {ascii ''b''}"
    by (simp_all add: ascii_def)

lemma finalize_a_no_error: "snd (finalize td_zero 1 (ascii ''a'') (ascii ''OK'') spinner_ab) = None"
    by (simp add: spinner_eval)


theorem finalize_needs_running_name_witness:
  "ascii ''c'' \<notin> running spinner_ab
   \<and> finalize td_zero 1 (ascii ''c'') (ascii ''OK'') spinner_ab = (spinner_ab, Some KeyError)
   \<and> ascii ''a'' \<in> running spinner_ab
   \<and> (case finalize td_zero 1 (ascii ''a'') (ascii ''OK'') spinner_ab of
         (sp', raised) \<Rightarrow>
           raised = None \<and> running sp' = {ascii ''b''}
           \<and> finalize td_zero 2 (ascii ''a'') (ascii ''OK'') sp' = (sp', Some KeyError))"
proof -
  have c: "ascii ''c'' \<notin> running spinner_ab" and a: "ascii ''a'' \<in> running spinner_ab"
    and d: "running spinner_ab - {ascii ''a''} = {ascii ''b''}"
    unfolding running_spinner_ab by (rule names_abc)+
  note t1 = finalize_needs_running_name [where sp = spinner_ab and key = "ascii ''c''" and td = td_zero
      and now = 1 and status = "ascii ''OK''", THEN conjunct2, THEN conjunct2, THEN conjunct1, rule_format,
      OF c, THEN conjunct1]
  note t2 = finalize_needs_running_name [where sp = spinner_ab and key = "ascii ''a''" and td = td_zero
      and now = 1 and status = "ascii ''OK''" and td' = td_zero and now' = 2 and status' = "ascii ''OK''",
      THEN conjunct2, THEN conjunct2, THEN conjunct2, rule_format, OF a]
  obtain sp' raised where f: "finalize td_zero 1 (ascii ''a'') (ascii ''OK'') spinner_ab = (sp', raised)"
    by (cases "finalize td_zero 1 (ascii ''a'') (ascii ''OK'') spinner_ab")
  from finalize_a_no_error f have rn: "raised = None" by simp
  from t2 f d have "running sp' = {ascii ''b''}
      \<and> finalize td_zero 2 (ascii ''a'') (ascii ''OK'') sp' = (sp', Some KeyError)"
    by simp
  with c a t1 f rn show ?thesis by simp
qed

end
